theory Spec2Isabelle
  imports Main "HOL-Library.Word" "HOL-Library.List_Lexorder" "HOL-Library.Char_ord"
begin

unbundle bit_operations_syntax

section \<open>Go strings\<close>

text \<open>
  A Go string is a sequence of bytes; it is modelled as \<open>string\<close> (a list of 8-bit
  characters). \<open>strings.ToLower\<close> first looks for a byte of 128 (\<open>utf8.RuneSelf\<close>)
  or more. When the string has none, it maps the bytes \<open>A\<close>..\<open>Z\<close> to \<open>a\<close>..\<open>z\<close>
  and copies every other byte: this is \<open>ToLower\<close> below. For a string with such a
  byte the library decodes the runes and maps them through the Unicode case
  tables, which are outside the model: there \<open>ToLower\<close> is not the library's
  function. \<open>isASCII\<close> is the test of the library's first loop; it marks the
  strings on which the model is the library. \<open>TrimSpace\<close> likewise removes the
  ASCII white space characters.
\<close>

definition byte :: "char \<Rightarrow> nat" where
  "byte c = of_char c"

definition lower_char :: "char \<Rightarrow> char" where
  "lower_char c = (if 65 \<le> byte c \<and> byte c \<le> 90 then char_of (byte c + 32) else c)"


definition ToLower :: "string \<Rightarrow> string" where
  "ToLower s = map lower_char s"

definition HasPrefix :: "string \<Rightarrow> string \<Rightarrow> bool" where
  "HasPrefix s p = (length p \<le> length s \<and> take (length p) s = p)"

definition HasSuffix :: "string \<Rightarrow> string \<Rightarrow> bool" where
  "HasSuffix s x = (length x \<le> length s \<and> drop (length s - length x) s = x)"

definition TrimPrefix :: "string \<Rightarrow> string \<Rightarrow> string" where
  "TrimPrefix s p = (if HasPrefix s p then drop (length p) s else s)"

definition TrimSuffix :: "string \<Rightarrow> string \<Rightarrow> string" where
  "TrimSuffix s x = (if HasSuffix s x then take (length s - length x) s else s)"

definition is_space :: "char \<Rightarrow> bool" where
  "is_space c = (byte c = 32 \<or> (9 \<le> byte c \<and> byte c \<le> 13))"

definition TrimSpace :: "string \<Rightarrow> string" where
  "TrimSpace s = rev (dropWhile is_space (rev (dropWhile is_space s)))"

text \<open>
  \<open>strings.Split s sep\<close> for a separator of one byte: the pieces between the
  occurrences of the separator, \<open>n + 1\<close> pieces for \<open>n\<close> occurrences, so the empty
  string splits into one empty piece.
\<close>

fun Split :: "string \<Rightarrow> char \<Rightarrow> string list" where
  "Split [] sep = [[]]"
| "Split (c # cs) sep =
     (if c = sep then [] # Split cs sep
      else (case Split cs sep of [] \<Rightarrow> [[c]] | p # ps \<Rightarrow> (c # p) # ps))"

fun Join :: "string list \<Rightarrow> string \<Rightarrow> string" where
  "Join [] sep = []"
| "Join [x] sep = x"
| "Join (x # y # ys) sep = x @ sep @ Join (y # ys) sep"

text \<open>
  \<open>filepath.Ext\<close>: the suffix of the path that starts at the last dot of its last
  element, empty when that element has no dot. The scan runs from the end of the
  path and stops at a path separator.
\<close>

fun ext_rev :: "string \<Rightarrow> string \<Rightarrow> string" where
  "ext_rev [] acc = []"
| "ext_rev (c # cs) acc =
     (if c = CHR ''/'' then []
      else if c = CHR ''.'' then c # acc
      else ext_rev cs (c # acc))"

definition Ext :: "string \<Rightarrow> string" where
  "Ext path = ext_rev (rev path) []"

section \<open>The digest of crypto/md5 and its hexadecimal form\<close>

text \<open>
  \<open>md5.Sum\<close> is the MD5 function of RFC 1321: the message is padded with the byte
  \<open>0x80\<close>, zero bytes up to 56 modulo 64 and its length in bits as eight bytes, least
  significant first; every block of 64 bytes goes through 64 steps on four 32-bit
  words. The result is an array of 16 bytes. Bytes are \<open>8 word\<close>, the words of the
  state \<open>32 word\<close>.
\<close>

definition md5_shift :: "nat list" where
  "md5_shift =
    [7, 12, 17, 22, 7, 12, 17, 22, 7, 12, 17, 22, 7, 12, 17, 22,
     5, 9, 14, 20, 5, 9, 14, 20, 5, 9, 14, 20, 5, 9, 14, 20,
     4, 11, 16, 23, 4, 11, 16, 23, 4, 11, 16, 23, 4, 11, 16, 23,
     6, 10, 15, 21, 6, 10, 15, 21, 6, 10, 15, 21, 6, 10, 15, 21]"

definition md5_table :: "32 word list" where
  "md5_table =
    [0xd76aa478, 0xe8c7b756, 0x242070db, 0xc1bdceee, 0xf57c0faf, 0x4787c62a,
     0xa8304613, 0xfd469501, 0x698098d8, 0x8b44f7af, 0xffff5bb1, 0x895cd7be,
     0x6b901122, 0xfd987193, 0xa679438e, 0x49b40821, 0xf61e2562, 0xc040b340,
     0x265e5a51, 0xe9b6c7aa, 0xd62f105d, 0x02441453, 0xd8a1e681, 0xe7d3fbc8,
     0x21e1cde6, 0xc33707d6, 0xf4d50d87, 0x455a14ed, 0xa9e3e905, 0xfcefa3f8,
     0x676f02d9, 0x8d2a4c8a, 0xfffa3942, 0x8771f681, 0x6d9d6122, 0xfde5380c,
     0xa4beea44, 0x4bdecfa9, 0xf6bb4b60, 0xbebfbc70, 0x289b7ec6, 0xeaa127fa,
     0xd4ef3085, 0x04881d05, 0xd9d4d039, 0xe6db99e5, 0x1fa27cf8, 0xc4ac5665,
     0xf4292244, 0x432aff97, 0xab9423a7, 0xfc93a039, 0x655b59c3, 0x8f0ccc92,
     0xffeff47d, 0x85845dd1, 0x6fa87e4f, 0xfe2ce6e0, 0xa3014314, 0x4e0811a1,
     0xf7537e82, 0xbd3af235, 0x2ad7d2bb, 0xeb86d391]"

text \<open>
  The padded message as bytes. The length in bits is counted in 64-bit arithmetic,
  eight for every byte of the message.
\<close>

definition bit_length :: "string \<Rightarrow> 64 word" where
  "bit_length s = foldr (\<lambda>c n. n + 8) s 0"

definition md5_pad :: "string \<Rightarrow> 8 word list" where
  "md5_pad s =
     map of_char s @ [0x80] @ replicate ((119 - length s mod 64) mod 64) 0 @
     map (\<lambda>i. ucast (drop_bit (8 * i) (bit_length s))) [0..<8]"

function md5_blocks :: "8 word list \<Rightarrow> 8 word list list" where
  "md5_blocks bs = (if bs = [] then [] else take 64 bs # md5_blocks (drop 64 bs))"
  by pat_completeness auto
termination
  by (relation "measure length") auto

declare md5_blocks.simps [simp del]

definition le_word :: "8 word list \<Rightarrow> 32 word" where
  "le_word bs = foldr (\<lambda>b n. ucast b + 256 * n) bs 0"

definition md5_words :: "8 word list \<Rightarrow> 32 word list" where
  "md5_words blk = map (\<lambda>j. le_word (take 4 (drop (4 * j) blk))) [0..<16]"

type_synonym md5_state = "32 word \<times> 32 word \<times> 32 word \<times> 32 word"

definition md5_step :: "32 word list \<Rightarrow> md5_state \<Rightarrow> nat \<Rightarrow> md5_state" where
  "md5_step m st i =
     (case st of (a, b, c, d) \<Rightarrow>
        let f = (if i < 16 then (b AND c) OR (NOT b AND d)
                 else if i < 32 then (d AND b) OR (NOT d AND c)
                 else if i < 48 then b XOR c XOR d
                 else c XOR (b OR NOT d));
            g = (if i < 16 then i
                 else if i < 32 then (5 * i + 1) mod 16
                 else if i < 48 then (3 * i + 5) mod 16
                 else (7 * i) mod 16);
            x = f + a + md5_table ! i + m ! g
        in (d, b + word_rotl (md5_shift ! i) x, b, c))"

definition md5_block :: "md5_state \<Rightarrow> 8 word list \<Rightarrow> md5_state" where
  "md5_block st blk =
     (case st of (a0, b0, c0, d0) \<Rightarrow>
        (case foldl (md5_step (md5_words blk)) st [0..<64] of
           (a, b, c, d) \<Rightarrow> (a0 + a, b0 + b, c0 + c, d0 + d)))"

definition le_bytes :: "32 word \<Rightarrow> 8 word list" where
  "le_bytes w = map (\<lambda>i. ucast (drop_bit (8 * i) w)) [0..<4]"

definition md5_Sum :: "string \<Rightarrow> 8 word list" where
  "md5_Sum s =
     (case foldl md5_block (0x67452301, 0xefcdab89, 0x98badcfe, 0x10325476)
             (md5_blocks (md5_pad s)) of
        (a, b, c, d) \<Rightarrow> le_bytes a @ le_bytes b @ le_bytes c @ le_bytes d)"

text \<open>
  \<open>fmt.Sprintf("%x", sum)\<close> on an array of bytes writes two lower-case
  hexadecimal digits for every byte.
\<close>

definition hex_digit :: "8 word \<Rightarrow> char" where
  "hex_digit n = ''0123456789abcdef'' ! unat (n AND 0xF)"

definition hex_byte :: "8 word \<Rightarrow> string" where
  "hex_byte b = [hex_digit (drop_bit 4 b), hex_digit b]"

definition Sprintf_x :: "8 word list \<Rightarrow> string" where
  "Sprintf_x bs = concat (map hex_byte bs)"

definition md5_hex :: "string \<Rightarrow> string" where
  "md5_hex s = Sprintf_x (md5_Sum s)"

section \<open>The mapper from raw tags to tracks (scanner/mapping.go)\<close>

text \<open>
  The raw tags of one file, as the accessors of \<open>metadata.Metadata\<close> return them.
  Only the accessors that the identity and naming rules read are kept, with a few
  of the fields that the mapper copies unchanged.
\<close>

record metadata =
  tag_Title :: string
  tag_Album :: string
  tag_Artist :: string
  tag_AlbumArtist :: string
  tag_Genre :: string
  tag_Compilation :: bool
  tag_Year :: int
  tag_FilePath :: string
  tag_Suffix :: string

record MediaFile =
  mf_ID :: string
  mf_Title :: string
  mf_Album :: string
  mf_AlbumID :: string
  mf_Artist :: string
  mf_ArtistID :: string
  mf_AlbumArtist :: string
  mf_AlbumArtistID :: string
  mf_Genre :: string
  mf_Compilation :: bool
  mf_Year :: int
  mf_Path :: string
  mf_Suffix :: string
  mf_OrderAlbumName :: string
  mf_OrderArtistName :: string
  mf_OrderAlbumArtistName :: string

record mediaFileMapper =
  rootFolder :: string

text \<open>
  Modelled from the spec: the constants of package \<open>consts\<close>, which is not among
  the sources. The spec names the fixed album artist of compilations
  "Various Artists" and the fallback artist "Unknown Artist".
\<close>

definition VariousArtists :: string where
  "VariousArtists = ''Various Artists''"

definition UnknownArtist :: string where
  "UnknownArtist = ''Unknown Artist''"

text \<open>
  Modelled from the spec: \<open>utils.NoArticle\<close>, which is not among the sources. The
  spec says that the configured leading articles (such as "The ", "A ", "An ",
  each with its space) are stripped case-insensitively; the first configured
  article that the name starts with is removed and the rest is returned as it is.
\<close>

fun NoArticle :: "string list \<Rightarrow> string \<Rightarrow> string" where
  "NoArticle [] name = name"
| "NoArticle (a # as) name =
     (if a \<noteq> [] \<and> HasPrefix (ToLower name) (ToLower a) then drop (length a) name
      else NoArticle as name)"

text \<open>
  \<open>sanitize.Accents\<close> of the library kennygrant/sanitize replaces the runes of its
  transliteration table, all of them outside ASCII, and copies every other rune.
  On ASCII text, the domain of this model, it is the identity.
\<close>

definition Accents :: "string \<Rightarrow> string" where
  "Accents s = s"

definition sanitizeFieldForSorting :: "string list \<Rightarrow> string \<Rightarrow> string" where
  "sanitizeFieldForSorting articles originalValue =
     (let v = TrimSpace (Accents originalValue) in NoArticle articles v)"

definition mapTrackTitle :: "mediaFileMapper \<Rightarrow> metadata \<Rightarrow> string" where
  "mapTrackTitle s md =
     (if tag_Title md = [] then
        let s' = TrimPrefix (tag_FilePath md) (rootFolder s @ ''/'');
            e = Ext s'
        in TrimSuffix s' e
      else tag_Title md)"

definition mapAlbumArtistName :: "mediaFileMapper \<Rightarrow> metadata \<Rightarrow> string" where
  "mapAlbumArtistName s md =
     (if tag_Compilation md then VariousArtists
      else if tag_AlbumArtist md \<noteq> [] then tag_AlbumArtist md
      else if tag_Artist md \<noteq> [] then tag_Artist md
      else UnknownArtist)"

definition mapArtistName :: "mediaFileMapper \<Rightarrow> metadata \<Rightarrow> string" where
  "mapArtistName s md = (if tag_Artist md \<noteq> [] then tag_Artist md else UnknownArtist)"

definition mapAlbumName :: "mediaFileMapper \<Rightarrow> metadata \<Rightarrow> string" where
  "mapAlbumName s md =
     (let name = tag_Album md in if name = [] then ''[Unknown Album]'' else name)"

definition trackID :: "mediaFileMapper \<Rightarrow> metadata \<Rightarrow> string" where
  "trackID s md = md5_hex (tag_FilePath md)"

text \<open>The format \<open>"%s\\%s"\<close> puts one backslash (byte 92) between the two names.\<close>

definition albumID :: "mediaFileMapper \<Rightarrow> metadata \<Rightarrow> string" where
  "albumID s md =
     (let albumPath = ToLower (mapAlbumArtistName s md @ [CHR 0x5C] @ mapAlbumName s md)
      in md5_hex albumPath)"

definition artistID :: "mediaFileMapper \<Rightarrow> metadata \<Rightarrow> string" where
  "artistID s md = md5_hex (ToLower (mapArtistName s md))"

definition albumArtistID :: "mediaFileMapper \<Rightarrow> metadata \<Rightarrow> string" where
  "albumArtistID s md = md5_hex (ToLower (mapAlbumArtistName s md))"

text \<open>
  \<open>toMediaFile\<close>; the list of ignored articles is the configuration value that
  \<open>utils.NoArticle\<close> reads.
\<close>

definition toMediaFile :: "string list \<Rightarrow> mediaFileMapper \<Rightarrow> metadata \<Rightarrow> MediaFile" where
  "toMediaFile articles s md =
     \<lparr> mf_ID = trackID s md,
       mf_Title = mapTrackTitle s md,
       mf_Album = mapAlbumName s md,
       mf_AlbumID = albumID s md,
       mf_Artist = mapArtistName s md,
       mf_ArtistID = artistID s md,
       mf_AlbumArtist = mapAlbumArtistName s md,
       mf_AlbumArtistID = albumArtistID s md,
       mf_Genre = tag_Genre md,
       mf_Compilation = tag_Compilation md,
       mf_Year = tag_Year md,
       mf_Path = tag_FilePath md,
       mf_Suffix = tag_Suffix md,
       mf_OrderAlbumName = sanitizeFieldForSorting articles (mapAlbumName s md),
       mf_OrderArtistName = sanitizeFieldForSorting articles (mapArtistName s md),
       mf_OrderAlbumArtistName = sanitizeFieldForSorting articles (mapAlbumArtistName s md) \<rparr>"

text \<open>
  A raw-tag input with the given title, artist, album artist, album, compilation
  flag and path, and nothing in the other tags.
\<close>

definition tags :: "string \<Rightarrow> string \<Rightarrow> string \<Rightarrow> string \<Rightarrow> bool \<Rightarrow> string \<Rightarrow> metadata" where
  "tags title artist albumArtist album compilation path =
     \<lparr> tag_Title = title, tag_Album = album, tag_Artist = artist,
       tag_AlbumArtist = albumArtist, tag_Genre = [], tag_Compilation = compilation,
       tag_Year = 0, tag_FilePath = path, tag_Suffix = [] \<rparr>"

section \<open>Percent-encoding of net/url\<close>

text \<open>
  \<open>url.QueryEscape\<close> keeps letters, digits and \<open>- _ . ~\<close>, writes a space as \<open>+\<close>
  and every other byte as \<open>%\<close> with two upper-case hexadecimal digits.
  \<open>url.QueryUnescape\<close> reads \<open>+\<close> as a space and \<open>%XY\<close> as the byte with these two
  hexadecimal digits; a \<open>%\<close> that is not followed by two hexadecimal digits is an
  error, here \<open>None\<close>.
\<close>

definition unreserved :: "char \<Rightarrow> bool" where
  "unreserved c =
     ((97 \<le> byte c \<and> byte c \<le> 122) \<or> (65 \<le> byte c \<and> byte c \<le> 90) \<or>
      (48 \<le> byte c \<and> byte c \<le> 57) \<or>
      c = CHR ''-'' \<or> c = CHR ''_'' \<or> c = CHR ''.'' \<or> c = CHR ''~'')"

definition upperhex :: "nat \<Rightarrow> char" where
  "upperhex n = ''0123456789ABCDEF'' ! (n mod 16)"

fun QueryEscape :: "string \<Rightarrow> string" where
  "QueryEscape [] = []"
| "QueryEscape (c # cs) =
     (if unreserved c then [c]
      else if c = CHR '' '' then ''+''
      else [CHR ''%'', upperhex (byte c div 16), upperhex (byte c)]) @ QueryEscape cs"

definition ishex :: "char \<Rightarrow> bool" where
  "ishex c =
     ((48 \<le> byte c \<and> byte c \<le> 57) \<or> (97 \<le> byte c \<and> byte c \<le> 102) \<or>
      (65 \<le> byte c \<and> byte c \<le> 70))"

definition unhex :: "char \<Rightarrow> nat" where
  "unhex c =
     (if 48 \<le> byte c \<and> byte c \<le> 57 then byte c - 48
      else if 97 \<le> byte c \<and> byte c \<le> 102 then byte c - 97 + 10
      else if 65 \<le> byte c \<and> byte c \<le> 70 then byte c - 65 + 10
      else 0)"

fun QueryUnescape :: "string \<Rightarrow> string option" where
  "QueryUnescape [] = Some []"
| "QueryUnescape (c # cs) =
     (if c = CHR ''%'' then
        (case cs of
           h # l # rest \<Rightarrow>
             if ishex h \<and> ishex l
             then map_option ((#) (char_of (16 * unhex h + unhex l))) (QueryUnescape rest)
             else None
         | _ \<Rightarrow> None)
      else map_option ((#) (if c = CHR ''+'' then CHR '' '' else c)) (QueryUnescape cs))"

section \<open>The artist repository (persistence)\<close>

type_synonym error = string

text \<open>
  \<open>model.Artist\<close> with the fields that the repository code below reads: the
  identifier, the display name and the list of similar artists, themselves
  artists. \<open>dbArtist\<close> is the stored row: the artist and the similar artists as
  one string.
\<close>

datatype Artist = Artist (ID: string) (Name: string) (SimilarArtists: "Artist list")

record dbArtist =
  db_Artist :: Artist
  db_SimilarArtists :: string

text \<open>
  The loop of \<open>toModel\<close> over the pieces of the stored string. The error of
  \<open>url.QueryUnescape\<close> is dropped by the code; the name is then the empty string
  that the function returns with its error.
\<close>

fun toModel_entries :: "string list \<Rightarrow> Artist list" where
  "toModel_entries [] = []"
| "toModel_entries (s # ss) =
     (let fields = Split s CHR '':''
      in if length fields \<noteq> 2 then toModel_entries ss
         else (let name = (case QueryUnescape (fields ! 1) of None \<Rightarrow> [] | Some n \<Rightarrow> n)
               in Artist (fields ! 0) name [] # toModel_entries ss))"

definition toModel :: "dbArtist \<Rightarrow> Artist" where
  "toModel dba =
     (let a = db_Artist dba
      in Artist (ID a) (Name a) (toModel_entries (Split (db_SimilarArtists dba) CHR '';'')))"

definition toModels :: "dbArtist list \<Rightarrow> Artist list" where
  "toModels dba = map toModel dba"

definition fromModel :: "Artist \<Rightarrow> dbArtist" where
  "fromModel a =
     (let sa = map (\<lambda>s. ID s @ '':'' @ QueryEscape (Name s)) (SimilarArtists a)
      in \<lparr> db_Artist = a, db_SimilarArtists = Join sa '';'' \<rparr>)"

text \<open>
  The decoding as the spec words it, for comparison with \<open>toModel\<close>: every piece
  between semicolons is split at its first colon into the identifier and the
  encoded name, and a piece without a colon is discarded.
\<close>

fun toModel_entries_spec :: "string list \<Rightarrow> Artist list" where
  "toModel_entries_spec [] = []"
| "toModel_entries_spec (s # ss) =
     (if CHR '':'' \<notin> set s then toModel_entries_spec ss
      else Artist (takeWhile (\<lambda>c. c \<noteq> CHR '':'') s)
             (case QueryUnescape (tl (dropWhile (\<lambda>c. c \<noteq> CHR '':'') s)) of
                None \<Rightarrow> [] | Some n \<Rightarrow> n) []
           # toModel_entries_spec ss)"

subsection \<open>The artist index\<close>







subsection \<open>Refreshing artists in chunks\<close>

text \<open>
  Modelled from the spec: \<open>utils.BreakUpStringSlice\<close>, which is not among the
  sources. The spec says that the identifiers are processed in chunks of a fixed
  size: every chunk takes the next \<open>chunkSize\<close> items, the last one what is left.
\<close>

function BreakUpStringSlice :: "string list \<Rightarrow> nat \<Rightarrow> string list list" where
  "BreakUpStringSlice items chunkSize =
     (if items = [] \<or> chunkSize = 0 then []
      else take chunkSize items # BreakUpStringSlice (drop chunkSize items) chunkSize)"
  by pat_completeness auto
termination
  by (relation "measure (\<lambda>(items, chunkSize). length items)") auto

declare BreakUpStringSlice.simps [simp del]

text \<open>
  The store is a value of any type \<open>'s\<close>. The two operations of the embedded
  \<open>sqlRepository\<close> are parameters: \<open>queryAll\<close> runs the aggregate query of
  \<open>refresh\<close> for the given identifiers and returns its rows or an error, and
  \<open>put\<close> writes one row and returns the store after it, with an error or none.
\<close>

record refreshArtist =
  ra_Artist :: Artist
  CurrentId :: string

definition Put :: "(string \<Rightarrow> dbArtist \<Rightarrow> 's \<Rightarrow> error option \<times> 's) \<Rightarrow> Artist \<Rightarrow> 's \<Rightarrow> error option \<times> 's" where
  "Put put a s = (let dba = fromModel a in put (ID (db_Artist dba)) dba s)"

text \<open>
  The loop of \<open>refresh\<close> over the rows of the query. The counters \<open>toInsert\<close> and
  \<open>toUpdate\<close> are only written to the log and are left out.
\<close>

fun refresh_rows ::
  "(string \<Rightarrow> dbArtist \<Rightarrow> 's \<Rightarrow> error option \<times> 's) \<Rightarrow> refreshArtist list \<Rightarrow> 's \<Rightarrow> error option \<times> 's" where
  "refresh_rows put [] s = (None, s)"
| "refresh_rows put (ar # artists) s =
     (case Put put (ra_Artist ar) s of
        (Some err, s') \<Rightarrow> (Some err, s')
      | (None, s') \<Rightarrow> refresh_rows put artists s')"

definition refresh ::
  "(string list \<Rightarrow> 's \<Rightarrow> error + refreshArtist list) \<Rightarrow>
   (string \<Rightarrow> dbArtist \<Rightarrow> 's \<Rightarrow> error option \<times> 's) \<Rightarrow> string list \<Rightarrow> 's \<Rightarrow> error option \<times> 's" where
  "refresh queryAll put ids s =
     (case queryAll ids s of
        Inl err \<Rightarrow> (Some err, s)
      | Inr artists \<Rightarrow> refresh_rows put artists s)"

fun Refresh_chunks ::
  "(string list \<Rightarrow> 's \<Rightarrow> error + refreshArtist list) \<Rightarrow>
   (string \<Rightarrow> dbArtist \<Rightarrow> 's \<Rightarrow> error option \<times> 's) \<Rightarrow> string list list \<Rightarrow> 's \<Rightarrow> error option \<times> 's" where
  "Refresh_chunks queryAll put [] s = (None, s)"
| "Refresh_chunks queryAll put (chunk # chunks) s =
     (case refresh queryAll put chunk s of
        (Some err, s') \<Rightarrow> (Some err, s')
      | (None, s') \<Rightarrow> Refresh_chunks queryAll put chunks s')"

definition Refresh ::
  "(string list \<Rightarrow> 's \<Rightarrow> error + refreshArtist list) \<Rightarrow>
   (string \<Rightarrow> dbArtist \<Rightarrow> 's \<Rightarrow> error option \<times> 's) \<Rightarrow> string list \<Rightarrow> 's \<Rightarrow> error option \<times> 's" where
  "Refresh queryAll put ids s =
     (let chunks = BreakUpStringSlice ids 100 in Refresh_chunks queryAll put chunks s)"

section \<open>The run-once check of the migrations (db/migration/migration.go)\<close>

text \<open>
  The state of the process that \<open>isDBInitialized\<close> touches: whether the
  \<open>sync.Once\<close> has run, and the keys that \<open>tx.Query\<close> has been asked for so far.
  The transaction is the function that answers the count query for a key with
  the rows of the result or with an error. \<open>checkErr\<close> panics on an error; a
  \<open>sync.Once\<close> whose function panics counts as done.
\<close>

record process =
  once_done :: bool
  queried :: "string list"

datatype 'a outcome = Returned 'a | Panicked error

definition checkCount :: "int list \<Rightarrow> int" where
  "checkCount rows = foldl (\<lambda>count row. row) 0 rows"

definition isDBInitialized ::
  "string \<Rightarrow> (string \<Rightarrow> error + int list) \<Rightarrow> process \<Rightarrow> bool outcome \<times> process" where
  "isDBInitialized InitialSetupFlagKey tx p =
     (if once_done p then (Returned False, p)
      else
        (let p' = p \<lparr> once_done := True, queried := queried p @ [InitialSetupFlagKey] \<rparr>
         in case tx InitialSetupFlagKey of
              Inl err \<Rightarrow> (Panicked err, p')
            | Inr rows \<Rightarrow> (Returned (checkCount rows > 0), p')))"

text \<open>
  Several calls in the life of one process, each with the transaction it is
  given: the outcomes in the order of the calls, and the state after the last.
\<close>

fun isDBInitialized_calls ::
  "string \<Rightarrow> (string \<Rightarrow> error + int list) list \<Rightarrow> process \<Rightarrow> bool outcome list \<times> process" where
  "isDBInitialized_calls key [] p = ([], p)"
| "isDBInitialized_calls key (tx # txs) p =
     (case isDBInitialized key tx p of
        (r, p') \<Rightarrow> (case isDBInitialized_calls key txs p' of (rs, p'') \<Rightarrow> (r # rs, p'')))"

section \<open>Properties\<close>

subsection \<open>Strings, paths and digests\<close>

lemma ext_rev_suffix: "\<exists>p. rev xs @ acc = p @ ext_rev xs acc"
  by (induction xs arbitrary: acc) auto

lemma Ext_suffix: "\<exists>p. s = p @ Ext s"
  using ext_rev_suffix [of "rev s" "[]"] by (simp add: Ext_def)

lemma TrimSuffix_Ext: "TrimSuffix s (Ext s) @ Ext s = s"
proof -
  obtain p where p: "s = p @ Ext s"
    using Ext_suffix by blast
  then have len: "length s = length p + length (Ext s)"
    by (metis length_append)
  have d: "drop (length p) s = Ext s"
    using p by (metis append_eq_conv_conj)
  then have "take (length p) s @ Ext s = s"
    by (metis append_take_drop_id)
  then show ?thesis
    using len d by (simp add: TrimSuffix_def HasSuffix_def)
qed

lemma TrimPrefix_append: "TrimPrefix (p @ r) p = r"
  by (simp add: TrimPrefix_def HasPrefix_def)

lemma length_md5_Sum: "length (md5_Sum s) = 16"
  by (simp add: md5_Sum_def le_bytes_def split: prod.split)

lemma length_Sprintf_x: "length (Sprintf_x bs) = 2 * length bs"
  by (induction bs) (simp_all add: Sprintf_x_def hex_byte_def)

lemma hex_digit_mem: "hex_digit n \<in> set ''0123456789abcdef''"
proof -
  have "unat (n AND 0xF) \<le> unat (0xF :: 8 word)"
    by (rule word_and_le1 [THEN word_le_nat_alt [THEN iffD1]])
  then have "unat (n AND 0xF) < length ''0123456789abcdef''"
    by simp
  then show ?thesis
    unfolding hex_digit_def by (rule nth_mem)
qed

lemma set_Sprintf_x: "set (Sprintf_x bs) \<subseteq> set ''0123456789abcdef''"
  unfolding Sprintf_x_def hex_byte_def using hex_digit_mem by auto

lemma length_md5_hex: "length (md5_hex s) = 32"
  by (simp add: md5_hex_def length_Sprintf_x length_md5_Sum)

lemma set_md5_hex: "set (md5_hex s) \<subseteq> set ''0123456789abcdef''"
  unfolding md5_hex_def by (rule set_Sprintf_x)


subsection \<open>The mapper\<close>

lemma ToLower_VariousArtists: "ToLower ''Various Artists'' = ''various artists''"
  by code_simp

lemma md5_hex_various_artists:
  "md5_hex ''various artists'' = ''03b645ef2100dfc42fa9785ea3102295''"
  by code_simp

text \<open>
  Claim C3. A raw-tag input with the compilation flag set gets the album artist
  "Various Artists" and, as album artist identifier, the digest of its lower-casing,
  whatever the album artist and artist tags hold.
\<close>

theorem toMediaFile_compilation:
  assumes "tag_Compilation md"
  shows "mf_AlbumArtist (toMediaFile articles s md) = ''Various Artists'' \<and>
         mf_AlbumArtistID (toMediaFile articles s md) = md5_hex (ToLower ''Various Artists'')"
  using assms
  by (simp add: toMediaFile_def mapAlbumArtistName_def albumArtistID_def VariousArtists_def)

theorem toMediaFile_compilation_witness:
  "tag_Compilation (tags [] ''Various Performer'' [] ''Hits'' True ''/music/Hits/01.mp3'') \<and>
   mf_AlbumArtist (toMediaFile [''The ''] \<lparr>rootFolder = ''/music''\<rparr>
     (tags [] ''Various Performer'' [] ''Hits'' True ''/music/Hits/01.mp3'')) = ''Various Artists'' \<and>
   mf_AlbumArtistID (toMediaFile [''The ''] \<lparr>rootFolder = ''/music''\<rparr>
     (tags [] ''Various Performer'' [] ''Hits'' True ''/music/Hits/01.mp3''))
     = ''03b645ef2100dfc42fa9785ea3102295''"
proof -
  have c: "tag_Compilation (tags [] ''Various Performer'' [] ''Hits'' True ''/music/Hits/01.mp3'')"
    by (simp add: tags_def)
  show ?thesis
    using c toMediaFile_compilation [OF c, of "[''The '']" "\<lparr>rootFolder = ''/music''\<rparr>"]
    by (simp only: ToLower_VariousArtists md5_hex_various_artists simp_thms)
qed


text \<open>
  Claim C9. The four identifiers that the mapper derives are digests of 32
  lower-case hexadecimal digits, each computed from its input string alone: the
  track identifier from the file path, the others from the lower-cased resolved
  names. Two inputs with the same file path get the same track identifier, whatever
  else differs.
\<close>

theorem identifiers_are_digests:
  "(\<forall>i \<in> {mf_ID (toMediaFile articles s md), mf_AlbumID (toMediaFile articles s md),
            mf_ArtistID (toMediaFile articles s md), mf_AlbumArtistID (toMediaFile articles s md)}.
      length i = 32 \<and> set i \<subseteq> set ''0123456789abcdef'') \<and>
   mf_ID (toMediaFile articles s md) = md5_hex (tag_FilePath md) \<and>
   mf_AlbumID (toMediaFile articles s md)
     = md5_hex (ToLower (mf_AlbumArtist (toMediaFile articles s md) @ [CHR 0x5C]
                           @ mf_Album (toMediaFile articles s md))) \<and>
   mf_ArtistID (toMediaFile articles s md) = md5_hex (ToLower (mf_Artist (toMediaFile articles s md))) \<and>
   mf_AlbumArtistID (toMediaFile articles s md)
     = md5_hex (ToLower (mf_AlbumArtist (toMediaFile articles s md))) \<and>
   (tag_FilePath md' = tag_FilePath md \<longrightarrow>
      mf_ID (toMediaFile articles' s' md') = mf_ID (toMediaFile articles s md))"
  by (simp add: toMediaFile_def trackID_def albumID_def artistID_def albumArtistID_def
      length_md5_hex set_md5_hex [simplified] Let_def)

theorem identifiers_are_digests_witness:
  "mf_ID (toMediaFile [] \<lparr>rootFolder = ''/srv''\<rparr>
      (tags ''Title'' ''Artist'' [] ''Album'' True ''/music/Unknown/07 track.flac''))
   = mf_ID (toMediaFile [''The ''] \<lparr>rootFolder = ''/music''\<rparr>
      (tags [] [] [] [] False ''/music/Unknown/07 track.flac'')) \<and>
   length (mf_ID (toMediaFile [''The ''] \<lparr>rootFolder = ''/music''\<rparr>
      (tags [] [] [] [] False ''/music/Unknown/07 track.flac''))) = 32 \<and>
   length (mf_AlbumID (toMediaFile [''The ''] \<lparr>rootFolder = ''/music''\<rparr>
      (tags [] [] [] [] False ''/music/Unknown/07 track.flac''))) = 32"
proof -
  have p: "tag_FilePath (tags ''Title'' ''Artist'' [] ''Album'' True ''/music/Unknown/07 track.flac'')
      = tag_FilePath (tags [] [] [] [] False ''/music/Unknown/07 track.flac'')"
    by (simp add: tags_def)
  note t = identifiers_are_digests [of "[''The '']" "\<lparr>rootFolder = ''/music''\<rparr>"
      "tags [] [] [] [] False ''/music/Unknown/07 track.flac''"
      "tags ''Title'' ''Artist'' [] ''Album'' True ''/music/Unknown/07 track.flac''"
      "[]" "\<lparr>rootFolder = ''/srv''\<rparr>"]
  from t p show ?thesis
    by blast
qed


text \<open>
  Claim C1, as amended. For a raw-tag input whose title, artist and album tags are
  empty, the artist is "Unknown Artist" and the album "[Unknown Album]". The title
  is the file path with the root folder and its separator taken off the front and
  the extension taken off the end: the title followed by the extension is the path
  below the root folder. It is the base name without extension for a file that lies
  in the root folder itself.
\<close>

theorem toMediaFile_fallback:
  assumes "tag_Title md = []" and "tag_Artist md = []" and "tag_Album md = []"
  shows "mf_Artist (toMediaFile articles s md) = ''Unknown Artist'' \<and>
         mf_Album (toMediaFile articles s md) = ''[Unknown Album]'' \<and>
         mf_Title (toMediaFile articles s md)
             @ Ext (TrimPrefix (tag_FilePath md) (rootFolder s @ ''/''))
           = TrimPrefix (tag_FilePath md) (rootFolder s @ ''/'') \<and>
         (\<forall>rel. tag_FilePath md = rootFolder s @ ''/'' @ rel \<longrightarrow>
            mf_Title (toMediaFile articles s md) @ Ext rel = rel)"
proof -
  have t: "mf_Title (toMediaFile articles s md)
      = TrimSuffix (TrimPrefix (tag_FilePath md) (rootFolder s @ ''/''))
          (Ext (TrimPrefix (tag_FilePath md) (rootFolder s @ ''/'')))"
    using assms by (simp add: toMediaFile_def mapTrackTitle_def Let_def)
  have r: "TrimPrefix (tag_FilePath md) (rootFolder s @ ''/'') = rel"
    if "tag_FilePath md = rootFolder s @ ''/'' @ rel" for rel
    using that TrimPrefix_append [of "rootFolder s @ ''/''" rel] by simp
  have a: "mf_Artist (toMediaFile articles s md) = ''Unknown Artist''"
    using assms by (simp add: toMediaFile_def mapArtistName_def UnknownArtist_def)
  have b: "mf_Album (toMediaFile articles s md) = ''[Unknown Album]''"
    using assms by (simp add: toMediaFile_def mapAlbumName_def)
  have c: "mf_Title (toMediaFile articles s md)
             @ Ext (TrimPrefix (tag_FilePath md) (rootFolder s @ ''/''))
           = TrimPrefix (tag_FilePath md) (rootFolder s @ ''/'')"
    unfolding t by (rule TrimSuffix_Ext)
  have d: "mf_Title (toMediaFile articles s md) @ Ext rel = rel"
    if "tag_FilePath md = rootFolder s @ ''/'' @ rel" for rel
    using c r [OF that] by simp
  from a b c d show ?thesis
    by blast
qed

theorem toMediaFile_fallback_witness:
  "tag_Title (tags [] [] [] [] False ''/music/Unknown/07 track.flac'') = [] \<and>
   mf_Artist (toMediaFile [''The ''] \<lparr>rootFolder = ''/music/Unknown''\<rparr>
      (tags [] [] [] [] False ''/music/Unknown/07 track.flac'')) = ''Unknown Artist'' \<and>
   mf_Album (toMediaFile [''The ''] \<lparr>rootFolder = ''/music/Unknown''\<rparr>
      (tags [] [] [] [] False ''/music/Unknown/07 track.flac'')) = ''[Unknown Album]'' \<and>
   mf_Title (toMediaFile [''The ''] \<lparr>rootFolder = ''/music/Unknown''\<rparr>
      (tags [] [] [] [] False ''/music/Unknown/07 track.flac'')) @ ''.flac'' = ''07 track.flac''"
proof -
  have h: "tag_Title (tags [] [] [] [] False ''/music/Unknown/07 track.flac'') = []"
    "tag_Artist (tags [] [] [] [] False ''/music/Unknown/07 track.flac'') = []"
    "tag_Album (tags [] [] [] [] False ''/music/Unknown/07 track.flac'') = []"
    by (simp_all add: tags_def)
  have p: "tag_FilePath (tags [] [] [] [] False ''/music/Unknown/07 track.flac'')
      = rootFolder \<lparr>rootFolder = ''/music/Unknown''\<rparr> @ ''/'' @ ''07 track.flac''"
    by (simp add: tags_def)
  have e: "Ext ''07 track.flac'' = ''.flac''"
    by (simp add: Ext_def)
  note t = toMediaFile_fallback [OF h, of "[''The '']" "\<lparr>rootFolder = ''/music/Unknown''\<rparr>"]
  from t p have "mf_Title (toMediaFile [''The ''] \<lparr>rootFolder = ''/music/Unknown''\<rparr>
      (tags [] [] [] [] False ''/music/Unknown/07 track.flac'')) @ Ext ''07 track.flac'' = ''07 track.flac''"
    by blast
  with t h(1) e show ?thesis
    by simp
qed

theorem toMediaFile_title_counterexample:
  "mf_Title (toMediaFile [''The ''] \<lparr>rootFolder = ''/music''\<rparr>
      (tags [] [] [] [] False ''/music/Unknown/07 track.flac'')) = ''Unknown/07 track'' \<and>
   mf_Title (toMediaFile [''The ''] \<lparr>rootFolder = ''/music''\<rparr>
      (tags [] [] [] [] False ''/music/Unknown/07 track.flac'')) \<noteq> ''07 track''"
  by (simp add: toMediaFile_def mapTrackTitle_def tags_def TrimPrefix_def HasPrefix_def
      Ext_def TrimSuffix_def HasSuffix_def)


lemma ToLower_append: "ToLower (a @ b) = ToLower a @ ToLower b"
  by (simp add: ToLower_def)

lemma ToLower_Nil_iff: "ToLower s = [] \<longleftrightarrow> s = []"
  by (simp add: ToLower_def)

lemma ToLower_mapArtistName:
  assumes "ToLower (tag_Artist md1) = ToLower (tag_Artist md2)"
  shows "ToLower (mapArtistName s1 md1) = ToLower (mapArtistName s2 md2)"
proof -
  have "tag_Artist md1 = [] \<longleftrightarrow> tag_Artist md2 = []"
    using assms by (metis ToLower_Nil_iff)
  then show ?thesis
    using assms by (simp add: mapArtistName_def)
qed

lemma md5_hex_roger_waters:
  "md5_hex (ToLower ''Roger Waters'') = ''3e5f735076833a3586c858c2f75916be''"
  by code_simp

lemma md5_hex_david_gilmour:
  "md5_hex (ToLower ''David Gilmour'') = ''9bdeb6cbcd60bf5357c9e958ac97bc2c''"
  by code_simp

text \<open>
  Claim C2, as amended. Two raw-tag inputs, at any file paths and under any root
  folders, that are not flagged as compilations and whose album artist tag is
  "Pink Floyd" and whose album tag is "The Wall", both up to letter case, get the
  same album identifier and the same album artist identifier. They get the same
  artist identifier when their artist tags are equal up to letter case: the artist
  identifier is the digest of the lower-cased artist name, not of the album artist.
\<close>

theorem name_based_merge:
  assumes "\<not> tag_Compilation md1" and "\<not> tag_Compilation md2"
    and "ToLower (tag_AlbumArtist md1) = ''pink floyd''"
    and "ToLower (tag_AlbumArtist md2) = ''pink floyd''"
    and "ToLower (tag_Album md1) = ''the wall''"
    and "ToLower (tag_Album md2) = ''the wall''"
  shows "mf_AlbumID (toMediaFile articles1 s1 md1) = mf_AlbumID (toMediaFile articles2 s2 md2) \<and>
         mf_AlbumArtistID (toMediaFile articles1 s1 md1)
           = mf_AlbumArtistID (toMediaFile articles2 s2 md2) \<and>
         (ToLower (tag_Artist md1) = ToLower (tag_Artist md2) \<longrightarrow>
            mf_ArtistID (toMediaFile articles1 s1 md1) = mf_ArtistID (toMediaFile articles2 s2 md2))"
proof -
  have aa: "tag_AlbumArtist md1 \<noteq> []" "tag_AlbumArtist md2 \<noteq> []"
    using assms(3,4) by (auto simp: ToLower_def)
  have al: "tag_Album md1 \<noteq> []" "tag_Album md2 \<noteq> []"
    using assms(5,6) by (auto simp: ToLower_def)
  have n1: "ToLower (mapAlbumArtistName s1 md1) = ''pink floyd''"
    using assms(1,3) aa(1) by (simp add: mapAlbumArtistName_def)
  have n2: "ToLower (mapAlbumArtistName s2 md2) = ''pink floyd''"
    using assms(2,4) aa(2) by (simp add: mapAlbumArtistName_def)
  have m1: "ToLower (mapAlbumName s1 md1) = ''the wall''"
    using assms(5) al(1) by (simp add: mapAlbumName_def)
  have m2: "ToLower (mapAlbumName s2 md2) = ''the wall''"
    using assms(6) al(2) by (simp add: mapAlbumName_def)
  have "albumID s1 md1 = albumID s2 md2"
    by (simp only: albumID_def Let_def ToLower_append n1 n2 m1 m2)
  moreover have "albumArtistID s1 md1 = albumArtistID s2 md2"
    by (simp only: albumArtistID_def n1 n2)
  moreover have "artistID s1 md1 = artistID s2 md2"
    if "ToLower (tag_Artist md1) = ToLower (tag_Artist md2)"
    using ToLower_mapArtistName [OF that, of s1 s2] by (simp only: artistID_def)
  ultimately show ?thesis
    by (simp add: toMediaFile_def)
qed

theorem name_based_merge_witness:
  "mf_AlbumID (toMediaFile [''The ''] \<lparr>rootFolder = ''/music''\<rparr>
      (tags ''Mother'' ''Pink Floyd'' ''Pink Floyd'' ''The Wall'' False ''/music/a/06.mp3''))
     = mf_AlbumID (toMediaFile [''The ''] \<lparr>rootFolder = ''/music''\<rparr>
      (tags ''Hey You'' ''pink floyd'' ''PINK FLOYD'' ''the wall'' False ''/music/b/cd2/01.flac'')) \<and>
   mf_AlbumArtistID (toMediaFile [''The ''] \<lparr>rootFolder = ''/music''\<rparr>
      (tags ''Mother'' ''Pink Floyd'' ''Pink Floyd'' ''The Wall'' False ''/music/a/06.mp3''))
     = mf_AlbumArtistID (toMediaFile [''The ''] \<lparr>rootFolder = ''/music''\<rparr>
      (tags ''Hey You'' ''pink floyd'' ''PINK FLOYD'' ''the wall'' False ''/music/b/cd2/01.flac'')) \<and>
   mf_ArtistID (toMediaFile [''The ''] \<lparr>rootFolder = ''/music''\<rparr>
      (tags ''Mother'' ''Pink Floyd'' ''Pink Floyd'' ''The Wall'' False ''/music/a/06.mp3''))
     = mf_ArtistID (toMediaFile [''The ''] \<lparr>rootFolder = ''/music''\<rparr>
      (tags ''Hey You'' ''pink floyd'' ''PINK FLOYD'' ''the wall'' False ''/music/b/cd2/01.flac''))"
proof -
  let ?md1 = "tags ''Mother'' ''Pink Floyd'' ''Pink Floyd'' ''The Wall'' False ''/music/a/06.mp3''"
  let ?md2 = "tags ''Hey You'' ''pink floyd'' ''PINK FLOYD'' ''the wall'' False ''/music/b/cd2/01.flac''"
  have c: "\<not> tag_Compilation ?md1" "\<not> tag_Compilation ?md2"
    by (simp_all add: tags_def)
  have l1: "ToLower ''Pink Floyd'' = ''pink floyd''" by code_simp
  have l2: "ToLower ''PINK FLOYD'' = ''pink floyd''" by code_simp
  have l3: "ToLower ''The Wall'' = ''the wall''" by code_simp
  have l4: "ToLower ''the wall'' = ''the wall''" by code_simp
  have l5: "ToLower ''pink floyd'' = ''pink floyd''" by code_simp
  have a: "ToLower (tag_AlbumArtist ?md1) = ''pink floyd''" "ToLower (tag_AlbumArtist ?md2) = ''pink floyd''"
    "ToLower (tag_Album ?md1) = ''the wall''" "ToLower (tag_Album ?md2) = ''the wall''"
    by (simp_all add: tags_def l1 l2 l3 l4)
  have r: "ToLower (tag_Artist ?md1) = ToLower (tag_Artist ?md2)"
    by (simp add: tags_def l1 l5)
  show ?thesis
    using name_based_merge [OF c a, of "[''The '']" "\<lparr>rootFolder = ''/music''\<rparr>"
        "[''The '']" "\<lparr>rootFolder = ''/music''\<rparr>"] r
    by blast
qed

theorem name_based_merge_counterexample:
  "mf_ArtistID (toMediaFile [''The ''] \<lparr>rootFolder = ''/music''\<rparr>
      (tags ''Mother'' ''Roger Waters'' ''Pink Floyd'' ''The Wall'' False ''/music/a/06.mp3''))
   \<noteq> mf_ArtistID (toMediaFile [''The ''] \<lparr>rootFolder = ''/music''\<rparr>
      (tags ''Hey You'' ''David Gilmour'' ''Pink Floyd'' ''The Wall'' False ''/music/b/cd2/01.flac''))"
  by (simp add: toMediaFile_def artistID_def mapArtistName_def tags_def
      md5_hex_roger_waters md5_hex_david_gilmour)


subsection \<open>The stored form of the similar artists\<close>

lemma Split_no_sep: "sep \<notin> set s \<Longrightarrow> Split s sep = [s]"
  by (induction s) auto

lemma Split_at_sep:
  "sep \<in> set s \<Longrightarrow>
   Split s sep = takeWhile (\<lambda>c. c \<noteq> sep) s # Split (tl (dropWhile (\<lambda>c. c \<noteq> sep) s)) sep"
  by (induction s) (auto simp: Split_no_sep)

lemma Split_append_sep: "sep \<notin> set a \<Longrightarrow> Split (a @ sep # b) sep = a # Split b sep"
  by (induction a) auto

lemma length_Split: "length (Split s sep) = Suc (count_list s sep)"
  by (induction s) (auto split: list.split)

lemma count_list_0_iff: "count_list s x = 0 \<longleftrightarrow> x \<notin> set s"
  by (induction s) auto

lemma Split_two_fields:
  assumes "count_list s sep = 1"
  shows "Split s sep = [takeWhile (\<lambda>c. c \<noteq> sep) s, tl (dropWhile (\<lambda>c. c \<noteq> sep) s)]"
proof -
  let ?rest = "tl (dropWhile (\<lambda>c. c \<noteq> sep) s)"
  have m: "sep \<in> set s"
    using assms count_list_0_iff [of s sep] by auto
  then have e: "Split s sep = takeWhile (\<lambda>c. c \<noteq> sep) s # Split ?rest sep"
    by (rule Split_at_sep)
  have "length (Split s sep) = 2"
    using assms by (simp add: length_Split)
  with e have "length (Split ?rest sep) = 1"
    by simp
  then have "count_list ?rest sep = 0"
    by (simp add: length_Split)
  then have "Split ?rest sep = [?rest]"
    by (simp add: count_list_0_iff Split_no_sep)
  with e show ?thesis
    by simp
qed

lemma toModel_entries_filter:
  "toModel_entries ss =
     map (\<lambda>s. Artist (takeWhile (\<lambda>c. c \<noteq> CHR '':'') s)
            (case QueryUnescape (tl (dropWhile (\<lambda>c. c \<noteq> CHR '':'') s)) of
               None \<Rightarrow> [] | Some n \<Rightarrow> n) [])
         (filter (\<lambda>s. count_list s CHR '':'' = 1) ss)"
proof (induction ss)
  case Nil
  then show ?case by simp
next
  case (Cons s ss)
  show ?case
  proof (cases "count_list s CHR '':'' = 1")
    case True
    then have "Split s CHR '':''
        = [takeWhile (\<lambda>c. c \<noteq> CHR '':'') s, tl (dropWhile (\<lambda>c. c \<noteq> CHR '':'') s)]"
      by (rule Split_two_fields)
    with True Cons show ?thesis
      by (simp add: Let_def)
  next
    case False
    then have "length (Split s CHR '':'') \<noteq> 2"
      by (simp add: length_Split)
    with False Cons show ?thesis
      by (simp add: Let_def)
  qed
qed

text \<open>
  Claim C8, as amended. Decoding the stored string never fails: the string is split
  at every semicolon and each piece at every colon; a piece with exactly one colon
  gives an entry, with the text before the colon as identifier and the decoded text
  after it as name (the empty name when the text cannot be decoded), and every
  other piece, with no colon or with more than one, is left out. Identifier and
  name of the artist itself are kept.
\<close>

theorem toModel_decodes_pieces_with_one_colon:
  "SimilarArtists (toModel dba) =
     map (\<lambda>s. Artist (takeWhile (\<lambda>c. c \<noteq> CHR '':'') s)
            (case QueryUnescape (tl (dropWhile (\<lambda>c. c \<noteq> CHR '':'') s)) of
               None \<Rightarrow> [] | Some n \<Rightarrow> n) [])
         (filter (\<lambda>s. count_list s CHR '':'' = 1) (Split (db_SimilarArtists dba) CHR '';'')) \<and>
   ID (toModel dba) = ID (db_Artist dba) \<and> Name (toModel dba) = Name (db_Artist dba)"
  by (simp add: toModel_def Let_def toModel_entries_filter)

theorem toModel_decodes_pieces_with_one_colon_witness:
  "SimilarArtists (toModel \<lparr>db_Artist = Artist ''x'' ''X'' [],
       db_SimilarArtists = ''a1:AC%2FDC;;b:c:d;e:%zz;plain;f:g+h''\<rparr>)
     = [Artist ''a1'' ''AC/DC'' [], Artist ''e'' [] [], Artist ''f'' ''g h'' []]"
proof -
  have "map (\<lambda>s. Artist (takeWhile (\<lambda>c. c \<noteq> CHR '':'') s)
            (case QueryUnescape (tl (dropWhile (\<lambda>c. c \<noteq> CHR '':'') s)) of
               None \<Rightarrow> [] | Some n \<Rightarrow> n) [])
         (filter (\<lambda>s. count_list s CHR '':'' = 1)
            (Split ''a1:AC%2FDC;;b:c:d;e:%zz;plain;f:g+h'' CHR '';''))
     = [Artist ''a1'' ''AC/DC'' [], Artist ''e'' [] [], Artist ''f'' ''g h'' []]"
    by code_simp
  then show ?thesis
    using toModel_decodes_pieces_with_one_colon [of "\<lparr>db_Artist = Artist ''x'' ''X'' [],
       db_SimilarArtists = ''a1:AC%2FDC;;b:c:d;e:%zz;plain;f:g+h''\<rparr>"]
    by simp
qed

theorem toModel_first_colon_counterexample:
  "SimilarArtists (toModel \<lparr>db_Artist = Artist ''x'' ''X'' [], db_SimilarArtists = ''a:b:c''\<rparr>) = [] \<and>
   toModel_entries_spec (Split ''a:b:c'' CHR '';'') = [Artist ''a'' ''b:c'' []]"
  by code_simp


lemma byte_less_256: "byte c < 256"
proof -
  have "byte c mod 256 = byte c"
    by (simp add: byte_def)
  then show ?thesis
    by (metis mod_less_divisor zero_less_numeral)
qed

lemma upperhex_digits:
  "list_all (\<lambda>n. ishex (upperhex n) \<and> unhex (upperhex n) = n \<and>
      upperhex n \<noteq> CHR '':'' \<and> upperhex n \<noteq> CHR '';'') [0..<16]"
  by code_simp

lemma upperhex_less_16:
  assumes "n < 16"
  shows "ishex (upperhex n)" and "unhex (upperhex n) = n"
    and "upperhex n \<noteq> CHR '':''" and "upperhex n \<noteq> CHR '';''"
  using assms upperhex_digits by (auto simp: list_all_iff)

lemma upperhex_mod: "upperhex (n mod 16) = upperhex n"
  by (simp add: upperhex_def)

lemma reserved_chars:
  "\<not> unreserved CHR ''%''" "\<not> unreserved CHR ''+''" "\<not> unreserved CHR '':''"
  "\<not> unreserved CHR '';''" "\<not> unreserved CHR '' ''"
  by code_simp+

lemma QueryUnescape_QueryEscape: "QueryUnescape (QueryEscape n) = Some n"
proof (induction n)
  case Nil
  then show ?case by simp
next
  case (Cons c cs)
  show ?case
  proof (cases "unreserved c")
    case True
    then have "c \<noteq> CHR ''%''" "c \<noteq> CHR ''+''"
      using reserved_chars by auto
    with True Cons show ?thesis by simp
  next
    case False
    show ?thesis
    proof (cases "c = CHR '' ''")
      case True
      with False Cons show ?thesis by simp
    next
      case sp: False
      have d: "byte c div 16 < 16"
        using byte_less_256 [of c] by simp
      have m: "byte c mod 16 < 16"
        by simp
      have h: "ishex (upperhex (byte c div 16))" "unhex (upperhex (byte c div 16)) = byte c div 16"
        using upperhex_less_16 [OF d] by simp_all
      have l: "ishex (upperhex (byte c))" "unhex (upperhex (byte c)) = byte c mod 16"
        using upperhex_less_16 [OF m] by (simp_all add: upperhex_mod)
      have "char_of (16 * (byte c div 16) + byte c mod 16) = c"
        by (simp add: byte_def)
      with False sp Cons h l show ?thesis
        by simp
    qed
  qed
qed

lemma QueryEscape_no_separator:
  "CHR '':'' \<notin> set (QueryEscape n) \<and> CHR '';'' \<notin> set (QueryEscape n)"
proof (induction n)
  case Nil
  then show ?case by simp
next
  case (Cons c cs)
  have d: "byte c div 16 < 16"
    using byte_less_256 [of c] by simp
  have m: "byte c mod 16 < 16"
    by simp
  have "upperhex (byte c div 16) \<noteq> CHR '':''" "upperhex (byte c div 16) \<noteq> CHR '';''"
    "upperhex (byte c) \<noteq> CHR '':''" "upperhex (byte c) \<noteq> CHR '';''"
    using upperhex_less_16 [OF d] upperhex_less_16 [OF m] by (simp_all add: upperhex_mod)
  with Cons reserved_chars show ?case
    by auto
qed

lemma Split_Join:
  assumes "es \<noteq> []" and "\<forall>e \<in> set es. CHR '';'' \<notin> set e"
  shows "Split (Join es '';'') CHR '';'' = es"
  using assms
proof (induction es "'';''" rule: Join.induct)
  case 1
  then show ?case by simp
next
  case (2 x)
  then show ?case by (simp add: Split_no_sep)
next
  case (3 x y ys)
  then show ?case by (simp add: Split_append_sep)
qed

lemma toModel_entries_encoded:
  assumes "\<forall>s \<in> set sims. CHR '':'' \<notin> set (ID s)"
  shows "toModel_entries (map (\<lambda>s. ID s @ '':'' @ QueryEscape (Name s)) sims)
     = map (\<lambda>s. Artist (ID s) (Name s) []) sims"
  using assms
proof (induction sims)
  case Nil
  then show ?case by simp
next
  case (Cons s sims)
  have "Split (ID s @ CHR '':'' # QueryEscape (Name s)) CHR '':''
      = ID s # Split (QueryEscape (Name s)) CHR '':''"
    using Cons.prems by (simp add: Split_append_sep)
  then have "Split (ID s @ '':'' @ QueryEscape (Name s)) CHR '':'' = [ID s, QueryEscape (Name s)]"
    using QueryEscape_no_separator [of "Name s"] by (simp add: Split_no_sep)
  with Cons show ?case
    by (simp add: Let_def QueryUnescape_QueryEscape)
qed

text \<open>
  Claim C4, as amended. For every similar-artists list whose identifiers contain
  neither a colon nor a semicolon, encoding with \<open>fromModel\<close> and decoding the
  result with \<open>toModel\<close> gives back the identifiers and the names in the same
  order, whatever bytes the names hold; the decoded entries carry nothing else.
\<close>

theorem toModel_fromModel_roundtrip:
  assumes "\<forall>s \<in> set (SimilarArtists a). CHR '':'' \<notin> set (ID s) \<and> CHR '';'' \<notin> set (ID s)"
  shows "SimilarArtists (toModel (fromModel a))
           = map (\<lambda>s. Artist (ID s) (Name s) []) (SimilarArtists a)"
proof (cases "SimilarArtists a = []")
  case True
  then show ?thesis
    by (simp add: toModel_def fromModel_def Let_def)
next
  case False
  let ?es = "map (\<lambda>s. ID s @ '':'' @ QueryEscape (Name s)) (SimilarArtists a)"
  have ne: "?es \<noteq> []"
    using False by simp
  have "\<forall>e \<in> set ?es. CHR '';'' \<notin> set e"
    using assms QueryEscape_no_separator by auto
  with ne have "Split (Join ?es '';'') CHR '';'' = ?es"
    by (rule Split_Join)
  moreover have "toModel_entries ?es = map (\<lambda>s. Artist (ID s) (Name s) []) (SimilarArtists a)"
    using assms by (intro toModel_entries_encoded) simp
  ultimately show ?thesis
    by (simp add: toModel_def fromModel_def Let_def)
qed

theorem toModel_fromModel_roundtrip_witness:
  "SimilarArtists (toModel (fromModel (Artist ''x'' ''X'' [Artist ''a1'' ''AC/DC'' []])))
     = [Artist ''a1'' ''AC/DC'' []] \<and>
   db_SimilarArtists (fromModel (Artist ''x'' ''X'' [Artist ''a1'' ''AC/DC'' []])) = ''a1:AC%2FDC''"
proof -
  have h: "\<forall>s \<in> set (SimilarArtists (Artist ''x'' ''X'' [Artist ''a1'' ''AC/DC'' []])).
      CHR '':'' \<notin> set (ID s) \<and> CHR '';'' \<notin> set (ID s)"
    by simp
  have e: "db_SimilarArtists (fromModel (Artist ''x'' ''X'' [Artist ''a1'' ''AC/DC'' []])) = ''a1:AC%2FDC''"
    by code_simp
  show ?thesis
    using toModel_fromModel_roundtrip [OF h] e by simp
qed

theorem toModel_fromModel_counterexample:
  "SimilarArtists (toModel (fromModel (Artist ''x'' ''X'' [Artist ''a:1'' ''AC/DC'' []]))) = [] \<and>
   db_SimilarArtists (fromModel (Artist ''x'' ''X'' [Artist ''a:1'' ''AC/DC'' []])) = ''a:1:AC%2FDC''"
  by code_simp


subsection \<open>The artist index\<close>



























subsection \<open>Refreshing in chunks\<close>

lemma BreakUpStringSlice_empty:
  "items = [] \<or> chunkSize = 0 \<Longrightarrow> BreakUpStringSlice items chunkSize = []"
  by (subst BreakUpStringSlice.simps) simp

lemma BreakUpStringSlice_step:
  "\<not> (items = [] \<or> chunkSize = 0) \<Longrightarrow>
   BreakUpStringSlice items chunkSize
     = take chunkSize items # BreakUpStringSlice (drop chunkSize items) chunkSize"
  by (subst BreakUpStringSlice.simps) simp

lemma BreakUpStringSlice_concat:
  "0 < n \<Longrightarrow> concat (BreakUpStringSlice items n) = items"
proof (induction items n rule: BreakUpStringSlice.induct)
  case (1 items chunkSize)
  show ?case
  proof (cases "items = [] \<or> chunkSize = 0")
    case True
    with 1(2) have "items = []" by simp
    with True show ?thesis
      by (simp add: BreakUpStringSlice_empty)
  next
    case False
    with 1 show ?thesis
      by (simp add: BreakUpStringSlice_step)
  qed
qed

lemma BreakUpStringSlice_chunks:
  "c \<in> set (BreakUpStringSlice items n) \<Longrightarrow> c \<noteq> [] \<and> length c \<le> n"
proof (induction items n rule: BreakUpStringSlice.induct)
  case (1 items chunkSize)
  show ?case
  proof (cases "items = [] \<or> chunkSize = 0")
    case True
    with 1(2) show ?thesis
      by (simp add: BreakUpStringSlice_empty)
  next
    case False
    then have "c = take chunkSize items \<or> c \<in> set (BreakUpStringSlice (drop chunkSize items) chunkSize)"
      using 1(2) by (simp add: BreakUpStringSlice_step)
    then show ?thesis
    proof
      assume "c = take chunkSize items"
      with False show ?thesis by simp
    next
      assume "c \<in> set (BreakUpStringSlice (drop chunkSize items) chunkSize)"
      with 1(1) False show ?thesis by simp
    qed
  qed
qed

lemma BreakUpStringSlice_full:
  "Suc i < length (BreakUpStringSlice items n) \<Longrightarrow> length (BreakUpStringSlice items n ! i) = n"
proof (induction items n arbitrary: i rule: BreakUpStringSlice.induct)
  case (1 items chunkSize)
  show ?case
  proof (cases "items = [] \<or> chunkSize = 0")
    case True
    with 1(2) show ?thesis
      by (simp add: BreakUpStringSlice_empty)
  next
    case False
    note step = BreakUpStringSlice_step [OF False]
    show ?thesis
    proof (cases i)
      case 0
      have "BreakUpStringSlice (drop chunkSize items) chunkSize \<noteq> []"
        using 1(2) 0 by (simp add: step)
      then have "drop chunkSize items \<noteq> []"
        using BreakUpStringSlice_empty [of "drop chunkSize items" chunkSize] by blast
      then show ?thesis
        using 0 by (simp add: step)
    next
      case (Suc j)
      then have "Suc j < length (BreakUpStringSlice (drop chunkSize items) chunkSize)"
        using 1(2) by (simp add: step)
      then have "length (BreakUpStringSlice (drop chunkSize items) chunkSize ! j) = chunkSize"
        using 1(1) [OF False] by simp
      then show ?thesis
        using Suc by (simp add: step)
    qed
  qed
qed

lemma Refresh_chunks_prefix:
  assumes "k \<le> length chunks"
    and "\<forall>i<k. refresh queryAll put (chunks ! i) (st i) = (None, st (Suc i))"
  shows "Refresh_chunks queryAll put chunks (st 0) = Refresh_chunks queryAll put (drop k chunks) (st k)"
  using assms
proof (induction k)
  case 0
  then show ?case by simp
next
  case (Suc k)
  have k: "k < length chunks"
    using Suc.prems(1) by simp
  have "Refresh_chunks queryAll put chunks (st 0) = Refresh_chunks queryAll put (drop k chunks) (st k)"
    using Suc.IH Suc.prems k by simp
  also have "drop k chunks = chunks ! k # drop (Suc k) chunks"
    using k by (simp add: Cons_nth_drop_Suc)
  also have "Refresh_chunks queryAll put (chunks ! k # drop (Suc k) chunks) (st k)
      = Refresh_chunks queryAll put (drop (Suc k) chunks) (st (Suc k))"
    using Suc.prems(2) by simp
  finally show ?case .
qed

text \<open>
  Claim C7. \<open>Refresh\<close> hands the identifiers to \<open>refresh\<close> in chunks that together
  are the input, none of them empty, each of at most 100 and all but the last of
  exactly 100 identifiers. Let \<open>st i\<close> be the store before chunk \<open>i\<close>: \<open>st 0\<close> is
  the store at the call and, as long as the chunks succeed, \<open>st (i + 1)\<close> is the
  store that \<open>refresh\<close> of chunk \<open>i\<close> leaves when started in \<open>st i\<close>. When all
  chunks succeed, \<open>Refresh\<close> returns no error and the store after the last chunk.
  When chunk \<open>k\<close> is the first to fail, \<open>Refresh\<close> returns its error and the store
  exactly as this failing call of \<open>refresh\<close> left it, started in the store
  \<open>st k\<close> that holds the writes of all the earlier chunks: nothing is rolled back
  and no later chunk is worked on.
\<close>

theorem Refresh_stops_at_failing_chunk:
  assumes "k \<le> length (BreakUpStringSlice ids 100)"
    and "st 0 = s"
    and "\<forall>i<k. refresh queryAll put (BreakUpStringSlice ids 100 ! i) (st i) = (None, st (Suc i))"
  shows "concat (BreakUpStringSlice ids 100) = ids \<and>
         (\<forall>c \<in> set (BreakUpStringSlice ids 100). c \<noteq> [] \<and> length c \<le> 100) \<and>
         (\<forall>i. Suc i < length (BreakUpStringSlice ids 100) \<longrightarrow>
                length (BreakUpStringSlice ids 100 ! i) = 100) \<and>
         (k = length (BreakUpStringSlice ids 100) \<longrightarrow>
            Refresh queryAll put ids s = (None, st k)) \<and>
         (\<forall>err s'. k < length (BreakUpStringSlice ids 100) \<longrightarrow>
            refresh queryAll put (BreakUpStringSlice ids 100 ! k) (st k) = (Some err, s') \<longrightarrow>
            Refresh queryAll put ids s = (Some err, s'))"
proof (intro conjI allI impI)
  let ?chunks = "BreakUpStringSlice ids 100"
  have p: "Refresh queryAll put ids s = Refresh_chunks queryAll put (drop k ?chunks) (st k)"
    using Refresh_chunks_prefix [OF assms(1) assms(3)] assms(2) by (simp add: Refresh_def)
  show "concat ?chunks = ids"
    by (rule BreakUpStringSlice_concat) simp
  show "\<forall>c \<in> set ?chunks. c \<noteq> [] \<and> length c \<le> 100"
    using BreakUpStringSlice_chunks by blast
  show "length (?chunks ! i) = 100" if "Suc i < length ?chunks" for i
    using that by (rule BreakUpStringSlice_full)
  show "Refresh queryAll put ids s = (None, st k)" if "k = length ?chunks"
    using p that by simp
  show "Refresh queryAll put ids s = (Some err, s')"
    if "k < length ?chunks" and "refresh queryAll put (?chunks ! k) (st k) = (Some err, s')"
    for err s'
  proof -
    have "drop k ?chunks = ?chunks ! k # drop (Suc k) ?chunks"
      using that(1) by (simp add: Cons_nth_drop_Suc)
    then show ?thesis
      using p that(2) by simp
  qed
qed

theorem Refresh_stops_at_failing_chunk_witness:
  "Refresh (\<lambda>ids s. Inr (map (\<lambda>i. \<lparr>ra_Artist = Artist i i [], CurrentId = []\<rparr>) ids))
      (\<lambda>i dba s. if i = ''x'' then (Some ''constraint failed'', s) else (None, s @ [i]))
      (replicate 100 ''a'' @ ''b'' # ''x'' # replicate 98 ''b'' @ [''c'']) []
     = (Some ''constraint failed'', replicate 100 ''a'' @ [''b'']) \<and>
   Refresh (\<lambda>ids s. Inr (map (\<lambda>i. \<lparr>ra_Artist = Artist i i [], CurrentId = []\<rparr>) ids))
      (\<lambda>i dba s. if i = ''x'' then (Some ''constraint failed'', s) else (None, s @ [i]))
      (replicate 100 ''a'' @ [''c'']) []
     = (None, replicate 100 ''a'' @ [''c''])"
proof -
  let ?q = "\<lambda>(ids :: string list) (s :: string list).
      (Inr (map (\<lambda>i. \<lparr>ra_Artist = Artist i i [], CurrentId = []\<rparr>) ids) :: error + refreshArtist list)"
  let ?p = "\<lambda>(i :: string) (dba :: dbArtist) (s :: string list).
      if i = ''x'' then (Some ''constraint failed'', s) else (None, s @ [i])"
  let ?ids = "replicate 100 ''a'' @ ''b'' # ''x'' # replicate 98 ''b'' @ [''c'']"
  let ?st = "\<lambda>i :: nat. if i = 0 then [] else replicate 100 ''a''"
  have c: "BreakUpStringSlice ?ids 100
      = [replicate 100 ''a'', ''b'' # ''x'' # replicate 98 ''b'', [''c'']]"
    by code_simp
  have h1: "1 \<le> length (BreakUpStringSlice ?ids 100)"
    by (simp add: c)
  have h2: "?st 0 = []"
    by simp
  have r0: "refresh ?q ?p (replicate 100 ''a'') [] = (None, replicate 100 ''a'')"
    by code_simp
  have h3: "\<forall>i<1. refresh ?q ?p (BreakUpStringSlice ?ids 100 ! i) (?st i) = (None, ?st (Suc i))"
    by (simp add: c r0)
  have r1: "refresh ?q ?p (BreakUpStringSlice ?ids 100 ! 1) (?st 1)
      = (Some ''constraint failed'', replicate 100 ''a'' @ [''b''])"
    unfolding c by code_simp
  have l: "1 < length (BreakUpStringSlice ?ids 100)"
    by (simp add: c)
  have failing: "Refresh ?q ?p ?ids [] = (Some ''constraint failed'', replicate 100 ''a'' @ [''b''])"
    using Refresh_stops_at_failing_chunk [OF h1 h2 h3] l r1 by blast
  let ?ids' = "replicate 100 ''a'' @ [''c'']"
  let ?st' = "\<lambda>i :: nat. if i = 0 then [] else if i = 1 then replicate 100 ''a''
      else replicate 100 ''a'' @ [''c'']"
  have c': "BreakUpStringSlice ?ids' 100 = [replicate 100 ''a'', [''c'']]"
    by code_simp
  have g1: "2 \<le> length (BreakUpStringSlice ?ids' 100)"
    by (simp add: c')
  have g2: "?st' 0 = []"
    by simp
  have r2: "refresh ?q ?p [''c''] (replicate 100 ''a'') = (None, replicate 100 ''a'' @ [''c''])"
    by code_simp
  have g3: "\<forall>i<2. refresh ?q ?p (BreakUpStringSlice ?ids' 100 ! i) (?st' i) = (None, ?st' (Suc i))"
    by (simp add: c' r0 r2 less_Suc_eq numeral_2_eq_2)
  have e: "2 = length (BreakUpStringSlice ?ids' 100)"
    by (simp add: c')
  have "Refresh ?q ?p ?ids' [] = (None, ?st' 2)"
    using Refresh_stops_at_failing_chunk [OF g1 g2 g3] e by blast
  then have succeeding: "Refresh ?q ?p ?ids' [] = (None, replicate 100 ''a'' @ [''c''])"
    by simp
  from failing succeeding show ?thesis
    by (rule conjI)
qed


lemma isDBInitialized_done:
  "once_done p \<Longrightarrow> isDBInitialized key tx p = (Returned False, p)"
  by (simp add: isDBInitialized_def)

lemma isDBInitialized_calls_done:
  "once_done p \<Longrightarrow> isDBInitialized_calls key txs p = (replicate (length txs) (Returned False), p)"
  by (induction txs) (simp_all add: isDBInitialized_done)

lemma isDBInitialized_first:
  "\<not> once_done p \<Longrightarrow>
   isDBInitialized key tx p
     = (case tx key of Inl err \<Rightarrow> Panicked err | Inr rows \<Rightarrow> Returned (0 < checkCount rows),
        p \<lparr> once_done := True, queried := queried p @ [key] \<rparr>)"
  by (simp add: isDBInitialized_def Let_def split: sum.split)

text \<open>
  Claim C10. Only the first call of \<open>isDBInitialized\<close> in the life of a process asks the
  database: it returns whether the count of the flag is positive. Every later call
  returns false and asks nothing, whatever its transaction would answer, also when
  the flag is there.
\<close>

theorem isDBInitialized_only_first_call:
  assumes "\<not> once_done p"
  shows "isDBInitialized_calls key (tx # txs) p
           = ((case tx key of Inl err \<Rightarrow> Panicked err | Inr rows \<Rightarrow> Returned (0 < checkCount rows))
                # replicate (length txs) (Returned False),
              p \<lparr> once_done := True, queried := queried p @ [key] \<rparr>)"
proof -
  let ?p' = "p \<lparr> once_done := True, queried := queried p @ [key] \<rparr>"
  have "once_done ?p'"
    by simp
  then have "isDBInitialized_calls key txs ?p' = (replicate (length txs) (Returned False), ?p')"
    by (rule isDBInitialized_calls_done)
  then show ?thesis
    using assms by (simp add: isDBInitialized_first)
qed

theorem isDBInitialized_only_first_call_witness:
  "\<not> once_done \<lparr>once_done = False, queried = []\<rparr> \<and>
   isDBInitialized_calls ''InitialSetup'' [\<lambda>k. Inr [1], \<lambda>k. Inr [1], \<lambda>k. Inr [1]]
       \<lparr>once_done = False, queried = []\<rparr>
     = ([Returned True, Returned False, Returned False],
        \<lparr>once_done = True, queried = [''InitialSetup'']\<rparr>)"
  using isDBInitialized_only_first_call [of "\<lparr>once_done = False, queried = []\<rparr>"
      "''InitialSetup''" "\<lambda>k. Inr [1]" "[\<lambda>k. Inr [1], \<lambda>k. Inr [1]]"]
  by (simp add: checkCount_def)


end
